theory Spec2Isabelle
  imports Main
begin

section \<open>Python string primitives used by the chunkers\<close>

text \<open>
  Python strings are sequences of code points; here a string is a \<open>char list\<close> whose
  characters are the code points below 256.  \<open>is_space\<close> is \<open>str.isspace\<close> on that
  range, which is also the class \<open>\s\<close> of the \<open>re\<close> module and the separator set
  of \<open>str.split()\<close> and \<open>str.strip()\<close> without arguments.
\<close>

definition is_space :: "char \<Rightarrow> bool" where
  "is_space c = (let n = (of_char c :: nat)
                 in (9 \<le> n \<and> n \<le> 13) \<or> (28 \<le> n \<and> n \<le> 32) \<or> n = 133 \<or> n = 160)"

text \<open>The character class \<open>[.?!]\<close> of the sentence pattern.\<close>

definition is_terminator :: "char \<Rightarrow> bool" where
  "is_terminator c = (c = CHR ''.'' \<or> c = CHR ''?'' \<or> c = CHR ''!'')"

text \<open>\<open>text.split()\<close>: the maximal runs of non-whitespace characters, in order.\<close>

function split_ws :: "string \<Rightarrow> string list" where
  "split_ws [] = []"
| "split_ws (c # cs) =
     (if is_space c then split_ws cs
      else (c # takeWhile (\<lambda>x. \<not> is_space x) cs)
             # split_ws (dropWhile (\<lambda>x. \<not> is_space x) cs))"
  by pat_completeness auto
termination
  by (relation "measure length") (auto simp: le_imp_less_Suc length_dropWhile_le)

text \<open>\<open>s.strip()\<close>: leading and trailing whitespace removed.\<close>

definition strip :: "string \<Rightarrow> string" where
  "strip s = rev (dropWhile is_space (rev (dropWhile is_space s)))"

text \<open>\<open>sep.join(xs)\<close>.\<close>

fun py_join :: "string \<Rightarrow> string list \<Rightarrow> string" where
  "py_join sep [] = []"
| "py_join sep [x] = x"
| "py_join sep (x # y # ys) = x @ sep @ py_join sep (y # ys)"

text \<open>
  \<open>re.split(r'(?<=[.?!])\s+', text)\<close>: a match starts at a whitespace character
  that follows one of \<open>.\<close>, \<open>?\<close>, \<open>!\<close> and takes the whole whitespace run; the
  pieces between the matches are returned, the last one possibly empty.
\<close>

function re_split :: "string \<Rightarrow> string list" where
  "re_split [] = [[]]"
| "re_split (c # cs) =
     (if is_terminator c \<and> cs \<noteq> [] \<and> is_space (hd cs)
      then [c] # re_split (dropWhile is_space cs)
      else (case re_split cs of [] \<Rightarrow> [[c]] | p # ps \<Rightarrow> (c # p) # ps))"
  by pat_completeness auto
termination
  by (relation "measure length") (auto simp: le_imp_less_Suc length_dropWhile_le)

section \<open>Exceptions\<close>

text \<open>
  An instance of a subclass of Python's \<open>Exception\<close>: its class name and the text
  \<open>str(e)\<close>.  A function that can raise returns \<open>py_exception + 'a\<close>, with
  \<open>Inl\<close> for the exception that leaves it.
\<close>

datatype py_exception = PyException (exc_class: string) (exc_str: string)

section \<open>Chunking\<close>

subsection \<open>Fixed word window (\<open>app.py\<close>, \<open>app_selenium_3.py\<close>)\<close>

text \<open>The indices \<open>i, i + step, ...\<close> below \<open>stop\<close> that \<open>range\<close> yields for a positive step.\<close>

function range_from :: "nat \<Rightarrow> nat \<Rightarrow> nat \<Rightarrow> nat list" where
  "range_from i stop step =
     (if step = 0 \<or> stop \<le> i then [] else i # range_from (i + step) stop step)"
  by pat_completeness auto
termination
  by (relation "measure (\<lambda>(i, stop, step). stop - i)") auto

declare range_from.simps [simp del]

text \<open>\<open>range(0, stop, step)\<close>: a zero step raises, a negative step gives no index.\<close>

definition py_range :: "nat \<Rightarrow> int \<Rightarrow> py_exception + nat list" where
  "py_range stop step =
     (if step = 0 then Inl (PyException ''ValueError'' ''range() arg 3 must not be zero'')
      else if step < 0 then Inr []
      else Inr (range_from 0 stop (nat step)))"

text \<open>\<open>words[i:j]\<close> for \<open>0 \<le> i \<le> j\<close>.\<close>

definition slice :: "'a list \<Rightarrow> nat \<Rightarrow> nat \<Rightarrow> 'a list" where
  "slice xs i j = take (j - i) (drop i xs)"

definition chunk_text :: "string \<Rightarrow> int \<Rightarrow> py_exception + string list" where
  "chunk_text text max_words =
     (let words = split_ws text
      in case py_range (length words) max_words of
           Inl e \<Rightarrow> Inl e
         | Inr idxs \<Rightarrow>
             Inr (map (\<lambda>i. py_join '' '' (slice words i (i + nat max_words))) idxs))"

subsection \<open>Sentence accumulation (\<open>archive/app_selenium_2.py\<close>)\<close>

text \<open>The \<open>for s in sentences\<close> loop, on the pair \<open>(chunks, current)\<close>.\<close>

fun chunk_loop :: "int \<Rightarrow> string list \<Rightarrow> string list \<Rightarrow> string \<Rightarrow> string list \<times> string" where
  "chunk_loop max_words [] chunks current = (chunks, current)"
| "chunk_loop max_words (s # ss) chunks current =
     (if int (length (split_ws (current @ s))) < max_words
      then chunk_loop max_words ss chunks (current @ '' '' @ s)
      else chunk_loop max_words ss (chunks @ [strip current]) s)"

definition chunk_text_v2 :: "string \<Rightarrow> int \<Rightarrow> string list" where
  "chunk_text_v2 text max_words =
     (let sentences = re_split text;
          (chunks, current) = chunk_loop max_words sentences [] []
      in if strip current \<noteq> [] then chunks @ [strip current] else chunks)"

section \<open>The language-model client and the prompts\<close>

text \<open>
  One call \<open>client.responses.create(model=..., input=...)\<close> followed by
  \<open>.output_text\<close> is recorded as the pair of the model name and the input.  The client
  is an external service: its answer to a call may depend on every call made before,
  and is either the output text or an exception.
\<close>

type_synonym model_call = "string \<times> string"

type_synonym llm = "model_call list \<Rightarrow> string \<Rightarrow> string \<Rightarrow> py_exception + string"

text \<open>
  A function that calls the model takes the calls made so far and returns its result
  (or the exception that leaves it) with the extended list of calls.
\<close>

type_synonym 'a gpt = "model_call list \<Rightarrow> (py_exception + 'a) \<times> model_call list"

definition responses_create :: "llm \<Rightarrow> string \<Rightarrow> string \<Rightarrow> string gpt" where
  "responses_create client model input log = (client log model input, log @ [(model, input)])"

text \<open>\<open>ask_gpt\<close>: the call inside \<open>try\<close>, with \<open>except Exception as e\<close> returning the marked text.\<close>

definition ask_gpt :: "llm \<Rightarrow> string \<Rightarrow> string \<Rightarrow> string gpt" where
  "ask_gpt client prompt model log =
     (case responses_create client model prompt log of
        (Inr output_text, log') \<Rightarrow> (Inr output_text, log')
      | (Inl e, log') \<Rightarrow> (Inr (''[GPT Error] '' @ exc_str e), log'))"

record metadata =
  title :: string
  publisher :: string
  published :: string
  url :: string

record article = metadata +
  content :: string

definition nl :: string where
  "nl = [CHR 0x0A]"

text \<open>
  The prompts are the triple-quoted f-strings of \<open>app_selenium_3.py\<close>, line by line.
  The two emoji in them are written as their UTF-8 bytes.
\<close>

definition extract_prompt :: "string \<Rightarrow> metadata \<Rightarrow> string" where
  "extract_prompt chunk metadata = py_join nl
     [[],
      ''Extract factual events from the article chunk.'',
      [],
      ''### Metadata'',
      ''Title: '' @ title metadata,
      ''Publisher: '' @ publisher metadata,
      ''Published: '' @ published metadata,
      ''URL: '' @ url metadata,
      [],
      ''### Chunk:'',
      chunk,
      [],
      ''### Output:'',
      ''- [time or date if known] Event description (source: '' @ publisher metadata @ '')'',
      []]"

definition merge_prompt :: "string \<Rightarrow> string" where
  "merge_prompt events_list = py_join nl
     [[],
      ''The following events came from multiple articles about the same incident.'',
      [],
      ''Your tasks:'',
      ''1. Merge them'',
      ''2. Remove duplicates'',
      ''3. Resolve conflicts using published dates'',
      ''4. Arrange them in chronological order'',
      ''5. Output a clean timeline'',
      [],
      ''### EVENTS:'',
      events_list,
      []]"

definition translate_prompt :: "string \<Rightarrow> string \<Rightarrow> string" where
  "translate_prompt timeline target_lang = py_join nl
     [[],
      ''Translate the following timeline into **'' @ target_lang @ ''**.'',
      [],
      ''### TIMELINE:'',
      timeline,
      []]"

definition highlights_prompt :: "string \<Rightarrow> string" where
  "highlights_prompt timeline = py_join nl
     [[],
      ''Extract the **5 most important key events** from the following timeline.'',
      [],
      ''### TIMELINE:'',
      timeline,
      [],
      ''### Output:'',
      ''## '' @ [CHR 0xF0, CHR 0x9F, CHR 0x94, CHR 0x91] @ '' Key Highlights'',
      ''- Bullet points summarizing the most critical events'',
      []]"

text \<open>The loop of \<open>compare_sources\<close> that builds \<open>formatted\<close>.\<close>

fun format_sources :: "article list \<Rightarrow> string \<Rightarrow> string" where
  "format_sources [] formatted = formatted"
| "format_sources (a # articles) formatted =
     format_sources articles
       (formatted @ py_join nl
          [[],
           ''### Source: '' @ publisher a,
           ''Title: '' @ title a,
           ''Content:'',
           (if content a \<noteq> [] then take 1500 (content a) else []),
           []])"

definition compare_prompt :: "article list \<Rightarrow> string" where
  "compare_prompt articles = py_join nl
     [[],
      ''Compare the following news sources and highlight:'',
      [],
      ''- Where the articles agree'',
      ''- Where they disagree'',
      ''- Unique details in each source'',
      ''- Contradictions or vague claims'',
      [],
      ''### ARTICLES:'',
      format_sources articles [],
      [],
      ''### Output:'',
      ''## '' @ [CHR 0xF0, CHR 0x9F, CHR 0x86, CHR 0x9A] @ '' Differences Between Sources'',
      ''- AGREEMENTS:'',
      ''- DISAGREEMENTS:'',
      ''- UNIQUE POINTS:'',
      []]"

definition extract_events_from_chunk :: "llm \<Rightarrow> string \<Rightarrow> metadata \<Rightarrow> string gpt" where
  "extract_events_from_chunk client chunk metadata =
     ask_gpt client (extract_prompt chunk metadata) ''gpt-4.1-mini''"

definition merge_events_to_timeline :: "llm \<Rightarrow> string \<Rightarrow> string gpt" where
  "merge_events_to_timeline client events_list =
     ask_gpt client (merge_prompt events_list) ''gpt-4.1''"

definition translate_timeline :: "llm \<Rightarrow> string \<Rightarrow> string \<Rightarrow> string gpt" where
  "translate_timeline client timeline target_lang =
     ask_gpt client (translate_prompt timeline target_lang) ''gpt-4.1-mini''"

definition extract_key_highlights :: "llm \<Rightarrow> string \<Rightarrow> string gpt" where
  "extract_key_highlights client timeline =
     ask_gpt client (highlights_prompt timeline) ''gpt-4.1-mini''"

definition compare_sources :: "llm \<Rightarrow> article list \<Rightarrow> string gpt" where
  "compare_sources client articles = ask_gpt client (compare_prompt articles) ''gpt-4.1''"

subsection \<open>The extractor of \<open>archive/app_selenium_2.py\<close>\<close>

definition extract_prompt_v2 :: "string \<Rightarrow> metadata \<Rightarrow> string" where
  "extract_prompt_v2 chunk metadata = py_join nl
     [[],
      ''Extract factual events from this article chunk.'',
      [],
      ''### Metadata'',
      ''Title: '' @ title metadata,
      ''Publisher: '' @ publisher metadata,
      ''Published Date: '' @ published metadata,
      ''URL: '' @ url metadata,
      [],
      ''### Chunk:'',
      chunk,
      [],
      ''### Output format (strict):'',
      ''- [time or date if known] Event description (source: '' @ publisher metadata @ '')'',
      []]"

text \<open>It calls the client directly, outside any \<open>try\<close>.\<close>

definition extract_events_from_chunk_v2 :: "llm \<Rightarrow> string \<Rightarrow> metadata \<Rightarrow> string gpt" where
  "extract_events_from_chunk_v2 client chunk metadata =
     responses_create client ''gpt-4.1-mini'' (extract_prompt_v2 chunk metadata)"

section \<open>Feed, browser and text extraction\<close>

text \<open>
  A feed entry: \<open>entry.link\<close>, \<open>entry.title\<close>, the optional key \<open>published\<close> and the
  optional key \<open>source\<close> with its optional \<open>title\<close>.
\<close>

record entry =
  link :: string
  entry_title :: string
  entry_published :: "string option"
  entry_source :: "string option option"

text \<open>
  The outside world of one run.  \<open>start_driver\<close> is the construction of the Chrome
  driver for a URL (\<open>ChromeDriverManager().install()\<close>, \<open>Service\<close>,
  \<open>webdriver.Chrome\<close>) and gives the exception it raises, if any; \<open>driver_get\<close> is
  \<open>driver.get(url)\<close>, the pause, and the read of \<open>driver.current_url\<close>;
  \<open>driver_quit\<close> is \<open>driver.quit()\<close>.  \<open>trafilatura_fetch_url\<close> and \<open>trafilatura_extract\<close> are the two
  trafilatura calls, each returning \<open>None\<close> or a string, or raising.
\<close>

record web =
  feedparser_parse :: "string \<Rightarrow> entry list"
  start_driver :: "string \<Rightarrow> py_exception option"
  driver_get :: "string \<Rightarrow> py_exception + string"
  driver_quit :: "string \<Rightarrow> py_exception option"
  trafilatura_fetch_url :: "string \<Rightarrow> py_exception + string option"
  trafilatura_extract :: "string \<Rightarrow> py_exception + string option"

definition search_google_news :: "web \<Rightarrow> string \<Rightarrow> entry list" where
  "search_google_news w query =
     (let query = map (\<lambda>c. if c = CHR '' '' then CHR ''+'' else c) query;
          rss_url = ''https://news.google.com/rss/search?q='' @ query
                      @ ''&hl=en-IN&gl=IN&ceid=IN:en''
      in feedparser_parse w rss_url)"

text \<open>
  \<open>resolve_real_url\<close>: the driver is built before the \<open>try\<close>; the bare \<open>except\<close>
  covers \<open>driver.get\<close> and \<open>driver.current_url\<close>; \<open>finally\<close> runs
  \<open>driver.quit()\<close>, and an exception raised there replaces the value being returned.
\<close>

definition resolve_real_url :: "web \<Rightarrow> string \<Rightarrow> py_exception + string" where
  "resolve_real_url w google_url =
     (case start_driver w google_url of
        Some e \<Rightarrow> Inl e
      | None \<Rightarrow>
          (let result = (case driver_get w google_url of
                           Inr current_url \<Rightarrow> current_url
                         | Inl _ \<Rightarrow> google_url)
           in case driver_quit w google_url of
                Some e \<Rightarrow> Inl e
              | None \<Rightarrow> Inr result))"

text \<open>\<open>extract_text\<close>: everything is inside \<open>try\<close> with a bare \<open>except\<close> returning \<open>None\<close>.\<close>

definition extract_text :: "web \<Rightarrow> string \<Rightarrow> string option" where
  "extract_text w u =
     (case trafilatura_fetch_url w u of
        Inl _ \<Rightarrow> None
      | Inr downloaded \<Rightarrow>
          (case downloaded of
             None \<Rightarrow> None
           | Some d \<Rightarrow>
               if d \<noteq> [] then (case trafilatura_extract w d of Inl _ \<Rightarrow> None | Inr text \<Rightarrow> text)
               else None))"

section \<open>The Streamlit script of \<open>app_selenium_3.py\<close>\<close>

text \<open>
  How a run of the script (or of one handler) ends: it reaches the end, it calls
  \<open>st.stop()\<close>, or an exception leaves it.  The display calls (\<open>st.write\<close>,
  \<open>st.success\<close>, \<open>st.warning\<close>, ...) change neither the session nor the calls made and
  are left out.
\<close>

datatype outcome = Completed | Stopped | Raised py_exception

text \<open>The loop \<open>for idx, entry in enumerate(entries[:10])\<close>, on \<open>articles_data\<close>.\<close>

fun fetch_articles :: "web \<Rightarrow> entry list \<Rightarrow> article list \<Rightarrow> py_exception + article list" where
  "fetch_articles w [] articles_data = Inr articles_data"
| "fetch_articles w (e # es) articles_data =
     (case resolve_real_url w (link e) of
        Inl ex \<Rightarrow> Inl ex
      | Inr real_url \<Rightarrow>
          (case extract_text w real_url of
             None \<Rightarrow> fetch_articles w es articles_data
           | Some text \<Rightarrow>
               fetch_articles w es
                 (articles_data @
                    [\<lparr>title = entry_title e,
                      publisher = (case entry_source e of
                                     Some (Some t) \<Rightarrow> t | _ \<Rightarrow> ''Unknown''),
                      published = (case entry_published e of
                                     Some p \<Rightarrow> p | None \<Rightarrow> ''Unknown''),
                      url = real_url,
                      content = text\<rparr>])))"

text \<open>The inner loop \<open>for chunk in chunks\<close>, on \<open>all_events\<close>.\<close>

fun events_of_chunks ::
    "llm \<Rightarrow> string list \<Rightarrow> metadata \<Rightarrow> string list \<Rightarrow> string list gpt" where
  "events_of_chunks client [] metadata all_events log = (Inr all_events, log)"
| "events_of_chunks client (chunk # chunks) metadata all_events log =
     (case extract_events_from_chunk client chunk metadata log of
        (Inl e, log') \<Rightarrow> (Inl e, log')
      | (Inr events, log') \<Rightarrow>
          events_of_chunks client chunks metadata (all_events @ [events]) log')"

text \<open>The outer loop \<open>for article in articles_data\<close>; \<open>chunk_text\<close> runs with its default bound.\<close>

fun events_of_articles :: "llm \<Rightarrow> article list \<Rightarrow> string list \<Rightarrow> string list gpt" where
  "events_of_articles client [] all_events log = (Inr all_events, log)"
| "events_of_articles client (a # articles) all_events log =
     (case chunk_text (content a) 300 of
        Inl e \<Rightarrow> (Inl e, log)
      | Inr chunks \<Rightarrow>
          (case events_of_chunks client chunks
                  \<lparr>title = title a, publisher = publisher a,
                    published = published a, url = url a\<rparr> all_events log of
             (Inl e, log') \<Rightarrow> (Inl e, log')
           | (Inr all_events', log') \<Rightarrow> events_of_articles client articles all_events' log'))"

text \<open>\<open>st.session_state\<close>: each key is absent (\<open>None\<close>) or holds a value.\<close>

record session =
  timeline :: "string option"
  articles_data :: "article list option"
  translated_timeline :: "string option"
  highlights :: "string option"
  comparison :: "string option"

text \<open>The body of \<open>if st.button("Search")\<close>.\<close>

definition search_handler ::
    "web \<Rightarrow> llm \<Rightarrow> string \<Rightarrow> session \<Rightarrow> model_call list
       \<Rightarrow> outcome \<times> session \<times> model_call list" where
  "search_handler w client query st log =
     (if strip query = [] then (Stopped, st, log)
      else
        let entries = search_google_news w query
        in case fetch_articles w (take 10 entries) [] of
             Inl e \<Rightarrow> (Raised e, st, log)
           | Inr articles \<Rightarrow>
               (case events_of_articles client articles [] log of
                  (Inl e, log1) \<Rightarrow> (Raised e, st, log1)
                | (Inr all_events, log1) \<Rightarrow>
                    (case merge_events_to_timeline client (py_join nl all_events) log1 of
                       (Inl e, log2) \<Rightarrow> (Raised e, st, log2)
                     | (Inr t, log2) \<Rightarrow>
                         (Completed,
                          \<lparr>timeline = Some t,
                            articles_data = Some articles,
                            translated_timeline = Some [],
                            highlights = Some [],
                            comparison = Some []\<rparr>,
                          log2))))"

text \<open>
  The three button handlers below the guard
  \<open>if "timeline" not in st.session_state: ... st.stop()\<close>.  Reading an absent key
  raises \<open>KeyError\<close>.
\<close>

definition key_error :: "string \<Rightarrow> py_exception" where
  "key_error k = PyException ''KeyError'' k"

definition translate_handler ::
    "llm \<Rightarrow> string \<Rightarrow> session \<Rightarrow> model_call list \<Rightarrow> outcome \<times> session \<times> model_call list" where
  "translate_handler client target_lang st log =
     (case timeline st of
        None \<Rightarrow> (Raised (key_error ''timeline''), st, log)
      | Some t \<Rightarrow>
          (case translate_timeline client t target_lang log of
             (Inl e, log') \<Rightarrow> (Raised e, st, log')
           | (Inr result, log') \<Rightarrow>
               (Completed, st\<lparr>translated_timeline := Some result\<rparr>, log')))"

definition highlights_handler ::
    "llm \<Rightarrow> session \<Rightarrow> model_call list \<Rightarrow> outcome \<times> session \<times> model_call list" where
  "highlights_handler client st log =
     (case timeline st of
        None \<Rightarrow> (Raised (key_error ''timeline''), st, log)
      | Some t \<Rightarrow>
          (case extract_key_highlights client t log of
             (Inl e, log') \<Rightarrow> (Raised e, st, log')
           | (Inr result, log') \<Rightarrow>
               (Completed, st\<lparr>highlights := Some result\<rparr>, log')))"

definition compare_handler ::
    "llm \<Rightarrow> session \<Rightarrow> model_call list \<Rightarrow> outcome \<times> session \<times> model_call list" where
  "compare_handler client st log =
     (case articles_data st of
        None \<Rightarrow> (Raised (key_error ''articles_data''), st, log)
      | Some articles \<Rightarrow>
          (case compare_sources client articles log of
             (Inl e, log') \<Rightarrow> (Raised e, st, log')
           | (Inr result, log') \<Rightarrow>
               (Completed, st\<lparr>comparison := Some result\<rparr>, log')))"

text \<open>
  One run of the script: the user has typed \<open>query\<close> and \<open>target_lang\<close> and pressed at
  most one button.
\<close>

datatype click = No_click | Search_click | Translate_click | Highlights_click | Compare_click

definition script ::
    "web \<Rightarrow> llm \<Rightarrow> string \<Rightarrow> string \<Rightarrow> click \<Rightarrow> session \<Rightarrow> model_call list
       \<Rightarrow> outcome \<times> session \<times> model_call list" where
  "script w client query target_lang button st log =
     (case (if button = Search_click then search_handler w client query st log
            else (Completed, st, log)) of
        (Completed, st1, log1) \<Rightarrow>
          (if timeline st1 = None then (Stopped, st1, log1)
           else if button = Translate_click then translate_handler client target_lang st1 log1
           else if button = Highlights_click then highlights_handler client st1 log1
           else if button = Compare_click then compare_handler client st1 log1
           else (Completed, st1, log1))
      | r \<Rightarrow> r)"

text \<open>A session of several runs, one per interaction; the session state and the calls persist.\<close>

record interaction =
  typed_query :: string
  typed_lang :: string
  pressed :: click

fun interact ::
    "web \<Rightarrow> llm \<Rightarrow> interaction list \<Rightarrow> session \<Rightarrow> model_call list
       \<Rightarrow> session \<times> model_call list" where
  "interact w client [] st log = (st, log)"
| "interact w client (i # is) st log =
     (case script w client (typed_query i) (typed_lang i) (pressed i) st log of
        (_, st', log') \<Rightarrow> interact w client is st' log')"

section \<open>Specification-level views of a run\<close>

text \<open>What \<open>ask_gpt\<close> makes of the client's reply: the output text, or the marked error text.\<close>

definition answer :: "py_exception + string \<Rightarrow> string" where
  "answer r = (case r of Inr output_text \<Rightarrow> output_text | Inl e \<Rightarrow> ''[GPT Error] '' @ exc_str e)"

text \<open>The records obtained when the given calls are made one after the other.\<close>

fun replay :: "llm \<Rightarrow> model_call list \<Rightarrow> model_call list \<Rightarrow> string list" where
  "replay client log [] = []"
| "replay client log (c # cs) =
     answer (client log (fst c) (snd c)) # replay client (log @ [c]) cs"

text \<open>
  The extraction calls of a run, flattened: one per chunk of every article, in article
  order and, within an article, in chunk order.
\<close>

definition chunks_of :: "article \<Rightarrow> string list" where
  "chunks_of a = (case chunk_text (content a) 300 of Inr chunks \<Rightarrow> chunks | Inl _ \<Rightarrow> [])"

definition extraction_calls :: "article list \<Rightarrow> model_call list" where
  "extraction_calls articles =
     concat (map (\<lambda>a. map (\<lambda>chunk. (''gpt-4.1-mini'',
                                   extract_prompt chunk
                                     \<lparr>title = title a, publisher = publisher a,
                                       published = published a, url = url a\<rparr>))
                         (chunks_of a))
                 articles)"

text \<open>The article that one feed entry contributes, if its URL resolves and its text is extracted.\<close>

definition article_of :: "web \<Rightarrow> entry \<Rightarrow> article option" where
  "article_of w e =
     (case resolve_real_url w (link e) of
        Inl _ \<Rightarrow> None
      | Inr real_url \<Rightarrow>
          (case extract_text w real_url of
             None \<Rightarrow> None
           | Some text \<Rightarrow>
               Some \<lparr>title = entry_title e,
                     publisher = (case entry_source e of
                                    Some (Some t) \<Rightarrow> t | _ \<Rightarrow> ''Unknown''),
                     published = (case entry_published e of
                                    Some p \<Rightarrow> p | None \<Rightarrow> ''Unknown''),
                     url = real_url,
                     content = text\<rparr>))"

text \<open>A derived operation is a run in which one of the three lower buttons is pressed.\<close>

definition derived :: "interaction \<Rightarrow> bool" where
  "derived i = (pressed i = Translate_click \<or> pressed i = Highlights_click
                  \<or> pressed i = Compare_click)"

section \<open>Concrete environments for the examples\<close>

definition quiet_web :: web where
  "quiet_web =
     \<lparr>feedparser_parse = (\<lambda>_. []),
      start_driver = (\<lambda>_. None),
      driver_get = (\<lambda>u. Inr (''https://publisher.example/'' @ u)),
      driver_quit = (\<lambda>_. None),
      trafilatura_fetch_url = (\<lambda>u. Inr (Some (''<html>'' @ u))),
      trafilatura_extract = (\<lambda>d. Inr (Some ''Fire broke out. Two hurt.''))\<rparr>"

definition feed_entry :: "string \<Rightarrow> entry" where
  "feed_entry u =
     \<lparr>link = u, entry_title = ''T '' @ u, entry_published = Some ''Mon, 01 Jan 2024'',
      entry_source = Some (Some ''P'')\<rparr>"

text \<open>Three entries; the page of the second cannot be downloaded.\<close>

definition three_entry_web :: web where
  "three_entry_web =
     quiet_web
       \<lparr>feedparser_parse := (\<lambda>_. [feed_entry ''a'', feed_entry ''b'', feed_entry ''c'']),
        trafilatura_fetch_url :=
          (\<lambda>u. if u = ''https://publisher.example/b'' then Inr None
                else Inr (Some (''<html>'' @ u)))\<rparr>"

text \<open>Three entries, none of whose pages can be downloaded.\<close>

definition unreadable_web :: web where
  "unreadable_web = three_entry_web\<lparr>trafilatura_fetch_url := (\<lambda>_. Inr None)\<rparr>"

text \<open>A machine on which the Chrome driver cannot be started.\<close>

definition no_chrome_web :: web where
  "no_chrome_web =
     quiet_web
       \<lparr>start_driver :=
          (\<lambda>_. Some (PyException ''WebDriverException'' ''cannot find Chrome binary''))\<rparr>"

text \<open>A browser whose navigation fails.\<close>

definition timeout_web :: web where
  "timeout_web =
     quiet_web\<lparr>driver_get := (\<lambda>_. Inl (PyException ''TimeoutException'' ''timeout''))\<rparr>"

definition canned_client :: llm where
  "canned_client = (\<lambda>log model input. Inr ''- [1 Jan] Fire broke out (source: P)'')"

definition failing_client :: llm where
  "failing_client = (\<lambda>log model input. Inl (PyException ''APIConnectionError'' ''Connection error.''))"

definition empty_session :: session where
  "empty_session =
     \<lparr>timeline = None, articles_data = None, translated_timeline = None,
      highlights = None, comparison = None\<rparr>"

definition sample_metadata :: metadata where
  "sample_metadata =
     \<lparr>title = ''T'', publisher = ''P'', published = ''Mon, 01 Jan 2024'',
      url = ''https://publisher.example/a''\<rparr>"

definition sample_session :: session where
  "sample_session =
     \<lparr>timeline = Some ''- [1 Jan] Fire broke out (source: P)'',
      articles_data = Some [\<lparr>title = ''T'', publisher = ''P'', published = ''Mon, 01 Jan 2024'',
                             url = ''https://publisher.example/a'',
                             content = ''Fire broke out. Two hurt.''\<rparr>],
      translated_timeline = Some [], highlights = Some [], comparison = Some []\<rparr>"

section \<open>The search handler of \<open>app.py\<close>\<close>

text \<open>
  \<open>app.py\<close> has the same \<open>chunk_text\<close>, \<open>ask_gpt\<close> and
  \<open>extract_events_from_chunk\<close> as \<open>app_selenium_3.py\<close>.  Its merge prompt is worded
  differently, and its article loop also scores every article with the model and
  renders a card for it.
\<close>

definition merge_prompt_app :: "string \<Rightarrow> string" where
  "merge_prompt_app events_list = py_join nl
     [[],
      ''The following events came from multiple articles about the same incident.'',
      [],
      ''Your tasks:'',
      ''1. Merge them'',
      ''2. Remove duplicates'',
      ''3. Resolve conflicts using published dates'',
      ''4. Arrange in chronological order'',
      [],
      ''### EVENTS:'',
      events_list,
      []]"

definition merge_events_to_timeline_app :: "llm \<Rightarrow> string \<Rightarrow> string gpt" where
  "merge_events_to_timeline_app client events_list =
     ask_gpt client (merge_prompt_app events_list) ''gpt-4.1''"

text \<open>The double quote character.\<close>

definition dq :: string where
  "dq = [CHR 0x22]"

definition credibility_prompt :: "article \<Rightarrow> string" where
  "credibility_prompt a = py_join nl
     [[],
      ''Analyze the credibility of this news article and give a score (0-100).'',
      [],
      ''### Criteria:'',
      ''- Reputed publisher'',
      ''- Specific details (names, dates, numbers)'',
      ''- Direct quotes'',
      ''- Neutral language'',
      ''- Internal consistency'',
      ''- Avoids vague claims'',
      ''- Completeness'',
      [],
      ''### Article:'',
      ''Title: '' @ title a,
      ''Publisher: '' @ publisher a,
      ''Published: '' @ published a,
      [],
      ''Content:'',
      take 1200 (content a),
      [],
      ''### Output strictly in JSON:'',
      ''{'',
      ''  '' @ dq @ ''score'' @ dq @ '': number,'',
      ''  '' @ dq @ ''reason'' @ dq @ '': '' @ dq @ ''short explanation'' @ dq,
      ''}'',
      []]"

text \<open>
  \<open>get_credibility_score\<close>: the client is called directly, inside \<open>try\<close> with a bare
  \<open>except\<close> that returns a fixed JSON text.
\<close>

definition get_credibility_score :: "llm \<Rightarrow> article \<Rightarrow> string gpt" where
  "get_credibility_score client a log =
     (case responses_create client ''gpt-4.1-mini'' (credibility_prompt a) log of
        (Inr output_text, log') \<Rightarrow> (Inr output_text, log')
      | (Inl _, log') \<Rightarrow>
          (Inr (''{'' @ dq @ ''score'' @ dq @ '': 50, '' @ dq @ ''reason'' @ dq @ '': ''
                  @ dq @ ''Unable to calculate'' @ dq @ ''}''),
           log'))"

text \<open>
  The values \<open>json.loads\<close> can return.  A float keeps the text of its literal; an
  object is the list of its members.
\<close>

datatype json =
    JNull
  | JBool bool
  | JInt int
  | JFloat string
  | JStr string
  | JList "json list"
  | JObj "(string \<times> json) list"

text \<open>
  The two library functions \<open>render_article_card\<close> relies on: \<open>json.loads\<close> and
  the builtin \<open>int\<close>, each returning a value or raising.
\<close>

record pylib =
  json_loads :: "string \<Rightarrow> py_exception + json"
  builtin_int :: "json \<Rightarrow> py_exception + int"

text \<open>\<open>data.get(k, default)\<close>: only a dict has the method.\<close>

definition data_get :: "json \<Rightarrow> string \<Rightarrow> json \<Rightarrow> py_exception + json" where
  "data_get data k dflt =
     (case data of
        JObj members \<Rightarrow> Inr (case map_of members k of Some v \<Rightarrow> v | None \<Rightarrow> dflt)
      | _ \<Rightarrow> Inl (PyException ''AttributeError'' ''object has no attribute get''))"

text \<open>
  \<open>render_article_card\<close>: only \<open>json.loads\<close> is inside the \<open>try\<close>; the reads of
  \<open>score\<close> and \<open>reason\<close> and the conversion \<open>int(...)\<close> are not.  The colour choice and
  the \<open>st.markdown\<close> call are display only.
\<close>

definition render_article_card :: "pylib \<Rightarrow> string \<Rightarrow> py_exception + unit" where
  "render_article_card lib credibility_json =
     (let data = (case json_loads lib credibility_json of
                    Inr d \<Rightarrow> d
                  | Inl _ \<Rightarrow> JObj [(''score'', JInt 50), (''reason'', JStr ''Invalid JSON'')])
      in case data_get data ''score'' (JInt 50) of
           Inl e \<Rightarrow> Inl e
         | Inr v \<Rightarrow>
             (case builtin_int lib v of
                Inl e \<Rightarrow> Inl e
              | Inr score \<Rightarrow>
                  (case data_get data ''reason'' (JStr ''No explanation given.'') of
                     Inl e \<Rightarrow> Inl e
                   | Inr reason \<Rightarrow> Inr ())))"

text \<open>The article dict of \<open>app.py\<close> after \<open>article_obj["credibility"] = cred_json\<close>.\<close>

record scored_article = article +
  credibility :: string

text \<open>The loop \<open>for idx, entry in enumerate(entries[:10])\<close> of \<open>app.py\<close>.\<close>

fun fetch_articles_app ::
    "web \<Rightarrow> pylib \<Rightarrow> llm \<Rightarrow> entry list \<Rightarrow> scored_article list \<Rightarrow> scored_article list gpt" where
  "fetch_articles_app w lib client [] acc log = (Inr acc, log)"
| "fetch_articles_app w lib client (e # es) acc log =
     (case resolve_real_url w (link e) of
        Inl ex \<Rightarrow> (Inl ex, log)
      | Inr real_url \<Rightarrow>
          (case extract_text w real_url of
             None \<Rightarrow> fetch_articles_app w lib client es acc log
           | Some body \<Rightarrow>
               (let title' = entry_title e;
                    publisher' = (case entry_source e of
                                    Some (Some t) \<Rightarrow> t | _ \<Rightarrow> ''Unknown'');
                    published' = (case entry_published e of
                                    Some p \<Rightarrow> p | None \<Rightarrow> ''Unknown'')
                in case get_credibility_score client
                          \<lparr>title = title', publisher = publisher', published = published',
                            url = real_url, content = body\<rparr> log of
                     (Inl ex, log') \<Rightarrow> (Inl ex, log')
                   | (Inr cred_json, log') \<Rightarrow>
                       (case render_article_card lib cred_json of
                          Inl ex \<Rightarrow> (Inl ex, log')
                        | Inr _ \<Rightarrow>
                            fetch_articles_app w lib client es
                              (acc @ [\<lparr>title = title', publisher = publisher',
                                       published = published', url = real_url,
                                       content = body, credibility = cred_json\<rparr>])
                              log'))))"

fun events_of_articles_app ::
    "llm \<Rightarrow> scored_article list \<Rightarrow> string list \<Rightarrow> string list gpt" where
  "events_of_articles_app client [] all_events log = (Inr all_events, log)"
| "events_of_articles_app client (a # articles) all_events log =
     (case chunk_text (content a) 300 of
        Inl e \<Rightarrow> (Inl e, log)
      | Inr chunks \<Rightarrow>
          (case events_of_chunks client chunks
                  \<lparr>title = title a, publisher = publisher a,
                    published = published a, url = url a\<rparr> all_events log of
             (Inl e, log') \<Rightarrow> (Inl e, log')
           | (Inr all_events', log') \<Rightarrow>
               events_of_articles_app client articles all_events' log'))"

record app_session =
  app_timeline :: "string option"
  app_articles_data :: "scored_article list option"
  app_translated_timeline :: "string option"
  app_highlights :: "string option"
  app_comparison :: "string option"

text \<open>The body of \<open>if st.button("Search")\<close> in \<open>app.py\<close>.\<close>

definition search_handler_app ::
    "web \<Rightarrow> pylib \<Rightarrow> llm \<Rightarrow> string \<Rightarrow> app_session \<Rightarrow> model_call list
       \<Rightarrow> outcome \<times> app_session \<times> model_call list" where
  "search_handler_app w lib client query st log =
     (if strip query = [] then (Stopped, st, log)
      else
        let entries = search_google_news w query
        in case fetch_articles_app w lib client (take 10 entries) [] log of
             (Inl e, log0) \<Rightarrow> (Raised e, st, log0)
           | (Inr articles, log0) \<Rightarrow>
               (case events_of_articles_app client articles [] log0 of
                  (Inl e, log1) \<Rightarrow> (Raised e, st, log1)
                | (Inr all_events, log1) \<Rightarrow>
                    (case merge_events_to_timeline_app client (py_join nl all_events) log1 of
                       (Inl e, log2) \<Rightarrow> (Raised e, st, log2)
                     | (Inr t, log2) \<Rightarrow>
                         (Completed,
                          \<lparr>app_timeline = Some t,
                            app_articles_data = Some articles,
                            app_translated_timeline = Some [],
                            app_highlights = Some [],
                            app_comparison = Some []\<rparr>,
                          log2))))"


subsection \<open>More concrete environments\<close>


text \<open>A library whose parser reads every reply as \<open>{"score": 80}\<close>.\<close>

definition plain_lib :: pylib where
  "plain_lib =
     \<lparr>json_loads = (\<lambda>_. Inr (JObj [(''score'', JInt 80)])),
      builtin_int = (\<lambda>v. case v of JInt n \<Rightarrow> Inr n
                          | _ \<Rightarrow> Inl (PyException ''TypeError'' ''int() argument''))\<rparr>"


definition empty_app_session :: app_session where
  "empty_app_session =
     \<lparr>app_timeline = None, app_articles_data = None, app_translated_timeline = None,
      app_highlights = None, app_comparison = None\<rparr>"

section \<open>Word sequences of strings\<close>

lemma is_space_sp: "is_space CHR '' ''" by (simp add: is_space_def)

lemma split_ws_all_space: "\<forall>c\<in>set xs. is_space c \<Longrightarrow> split_ws xs = []"
  by (induction xs) auto

lemma split_ws_app_space:
  "is_space c \<Longrightarrow> split_ws (xs @ c # ys) = split_ws xs @ split_ws ys"
proof (induction xs rule: split_ws.induct)
  case 1
  then show ?case by simp
next
  case (2 d ds)
  show ?case
  proof (cases "is_space d")
    case True
    with 2 show ?thesis by simp
  next
    case False
    have t: "takeWhile (\<lambda>x. \<not> is_space x) (ds @ c # ys) = takeWhile (\<lambda>x. \<not> is_space x) ds"
      using 2(3) by (simp add: takeWhile_tail)
    have d: "dropWhile (\<lambda>x. \<not> is_space x) (ds @ c # ys) = dropWhile (\<lambda>x. \<not> is_space x) ds @ c # ys"
      using 2(3) by (simp add: dropWhile_append3)
    from False 2(2)[OF False 2(3)] t d show ?thesis by simp
  qed
qed

lemma split_ws_dropWhile: "split_ws (dropWhile is_space xs) = split_ws xs"
  by (induction xs) auto

lemma split_ws_trailing:
  "\<forall>c\<in>set ws. is_space c \<Longrightarrow> split_ws (xs @ ws) = split_ws xs"
proof (cases ws)
  case Nil
  then show ?thesis by simp
next
  case (Cons w ws')
  assume a: "\<forall>c\<in>set ws. is_space c"
  with Cons have "is_space w" "\<forall>c\<in>set ws'. is_space c" by auto
  then show ?thesis using Cons by (simp add: split_ws_app_space split_ws_all_space)
qed

lemma rev_dropWhile_decomp:
  "\<exists>ws. xs = rev (dropWhile P (rev xs)) @ ws \<and> (\<forall>c\<in>set ws. P c)"
proof -
  have "rev xs = takeWhile P (rev xs) @ dropWhile P (rev xs)" by simp
  then have "xs = rev (dropWhile P (rev xs)) @ rev (takeWhile P (rev xs))"
    by (metis rev_append rev_rev_ident)
  moreover have "\<forall>c\<in>set (rev (takeWhile P (rev xs))). P c"
    by (auto dest: set_takeWhileD)
  ultimately show ?thesis by blast
qed

lemma split_ws_strip: "split_ws (strip xs) = split_ws xs"
proof -
  obtain ws where w: "dropWhile is_space xs = strip xs @ ws" "\<forall>c\<in>set ws. is_space c"
    unfolding strip_def using rev_dropWhile_decomp[of "dropWhile is_space xs" is_space] by blast
  have "split_ws xs = split_ws (dropWhile is_space xs)" by (simp add: split_ws_dropWhile)
  also have "\<dots> = split_ws (strip xs)" using w by (simp add: split_ws_trailing)
  finally show ?thesis by simp
qed

lemma split_ws_wellformed:
  "w \<in> set (split_ws xs) \<Longrightarrow> w \<noteq> [] \<and> (\<forall>c\<in>set w. \<not> is_space c)"
proof (induction xs rule: split_ws.induct)
  case 1
  then show ?case by simp
next
  case (2 d ds)
  show ?case
  proof (cases "is_space d")
    case True
    with 2 show ?thesis by simp
  next
    case False
    with 2(3) have "w = d # takeWhile (\<lambda>x. \<not> is_space x) ds
        \<or> w \<in> set (split_ws (dropWhile (\<lambda>x. \<not> is_space x) ds))"
      by simp
    then show ?thesis
    proof
      assume w: "w = d # takeWhile (\<lambda>x. \<not> is_space x) ds"
      have "\<forall>c\<in>set (takeWhile (\<lambda>x. \<not> is_space x) ds). \<not> is_space c"
        using set_takeWhileD by fastforce
      with w False show ?thesis by simp
    next
      assume "w \<in> set (split_ws (dropWhile (\<lambda>x. \<not> is_space x) ds))"
      with 2(2)[OF False] show ?thesis by simp
    qed
  qed
qed

lemma split_ws_word:
  assumes ne: "w \<noteq> []" and ns: "\<forall>c\<in>set w. \<not> is_space c"
  shows "split_ws w = [w]"
proof (cases w)
  case Nil
  with ne show ?thesis by simp
next
  case (Cons a as)
  from ns Cons have t: "takeWhile (\<lambda>x. \<not> is_space x) as = as" by (simp add: takeWhile_eq_all_conv)
  from ns Cons have d: "dropWhile (\<lambda>x. \<not> is_space x) as = []" by simp
  from ns Cons show ?thesis by (simp add: t d)
qed

lemma split_ws_join_pieces:
  "split_ws (py_join '' '' cs) = concat (map split_ws cs)"
proof (induction "'' ''" cs rule: py_join.induct)
  case 1
  then show ?case by simp
next
  case (2 x)
  then show ?case by simp
next
  case (3 x y ys)
  then show ?case using split_ws_app_space[OF is_space_sp] by simp
qed

lemma split_ws_join_words:
  assumes "\<forall>w\<in>set ws. w \<noteq> [] \<and> (\<forall>c\<in>set w. \<not> is_space c)"
  shows "split_ws (py_join '' '' ws) = ws"
proof -
  have "concat (map split_ws ws) = ws" using assms
    by (induction ws) (auto simp: split_ws_word)
  then show ?thesis by (simp add: split_ws_join_pieces)
qed

lemma slice_words_wellformed:
  "\<forall>w\<in>set (slice (split_ws t) i j). w \<noteq> [] \<and> (\<forall>c\<in>set w. \<not> is_space c)"
proof
  fix w assume "w \<in> set (slice (split_ws t) i j)"
  then have "w \<in> set (split_ws t)"
    unfolding slice_def by (blast dest: in_set_takeD in_set_dropD)
  then show "w \<noteq> [] \<and> (\<forall>c\<in>set w. \<not> is_space c)" by (rule split_ws_wellformed)
qed

lemma split_ws_window: "split_ws (py_join '' '' (slice (split_ws t) i j)) = slice (split_ws t) i j"
  by (rule split_ws_join_words) (rule slice_words_wellformed)

lemma concat_windows:
  "0 < n \<Longrightarrow> concat (map (\<lambda>i. slice ws i (i + n)) (range_from i (length ws) n)) = drop i ws"
proof (induction i "length ws" n rule: range_from.induct)
  case (1 i step)
  show ?case
  proof (cases "length ws \<le> i")
    case True
    then show ?thesis by (simp add: range_from.simps[of i])
  next
    case False
    with 1 have "concat (map (\<lambda>i. slice ws i (i + step)) (range_from (i + step) (length ws) step)) = drop (i + step) ws"
      by simp
    moreover have "take step (drop i ws) @ drop (i + step) ws = drop i ws"
      using append_take_drop_id[of step "drop i ws"] by (simp add: add.commute)
    ultimately show ?thesis using False 1(2) by (simp add: slice_def range_from.simps[of i])
  qed
qed

lemma range_from_bound: "j \<in> set (range_from i stop step) \<Longrightarrow> i \<le> j \<and> j < stop"
proof (induction i stop step rule: range_from.induct)
  case (1 i stop step)
  show ?case
  proof (cases "step = 0 \<or> stop \<le> i")
    case True
    with 1(2) show ?thesis by (simp add: range_from.simps[of i])
  next
    case False
    with 1(2) have "j = i \<or> j \<in> set (range_from (i + step) stop step)"
      by (simp add: range_from.simps[of i])
    with 1(1) False show ?thesis by auto
  qed
qed

section \<open>The fixed word window\<close>

lemma chunk_text_lossless:
  assumes "0 < n"
  shows "\<exists>chunks. chunk_text t n = Inr chunks \<and> concat (map split_ws chunks) = split_ws t"
proof -
  let ?ws = "split_ws t"
  let ?idx = "range_from 0 (length ?ws) (nat n)"
  have c: "chunk_text t n = Inr (map (\<lambda>i. py_join '' '' (slice ?ws i (i + nat n))) ?idx)"
    using assms by (simp add: chunk_text_def py_range_def Let_def)
  have "concat (map split_ws (map (\<lambda>i. py_join '' '' (slice ?ws i (i + nat n))) ?idx))
        = concat (map (\<lambda>i. slice ?ws i (i + nat n)) ?idx)"
    by (simp add: comp_def split_ws_window)
  also have "\<dots> = ?ws" using assms concat_windows[of "nat n" ?ws 0] by simp
  finally show ?thesis using c by simp
qed

lemma chunk_text_bound:
  assumes "chunk_text t n = Inr chunks" "c \<in> set chunks"
  shows "int (length (split_ws c)) \<le> n"
proof (cases "n \<le> 0")
  case True
  with assms show ?thesis by (auto simp: chunk_text_def py_range_def Let_def split: if_splits)
next
  case False
  with assms obtain i where "c = py_join '' '' (slice (split_ws t) i (i + nat n))"
    by (auto simp: chunk_text_def py_range_def Let_def split: if_splits)
  then have "split_ws c = slice (split_ws t) i (i + nat n)" by (simp add: split_ws_window)
  then have "length (split_ws c) \<le> nat n" by (simp add: slice_def)
  with False show ?thesis by simp
qed

section \<open>Sentence splitting and accumulation\<close>

lemma re_split_nonempty: "re_split t \<noteq> []"
proof (induction t rule: re_split.induct)
  case 1
  then show ?case by simp
next
  case (2 c cs)
  then show ?case by (simp split: list.splits)
qed

lemma split_ws_leading_space: "is_space h \<Longrightarrow> split_ws (h # rest) = split_ws rest"
  by simp

lemma re_split_words_prefix:
  "re_split t = p # ps \<Longrightarrow> split_ws (x @ t) = split_ws (x @ p) @ concat (map split_ws ps)"
proof (induction t arbitrary: p ps x rule: re_split.induct)
  case 1
  then show ?case by simp
next
  case (2 c cs)
  show ?case
  proof (cases "is_terminator c \<and> cs \<noteq> [] \<and> is_space (hd cs)")
    case True
    then obtain h rest where cs: "cs = h # rest" and h: "is_space h" by (cases cs) auto
    from True 2(3) have p: "p = [c]" and ps: "ps = re_split (dropWhile is_space cs)" by auto
    obtain q qs where q: "re_split (dropWhile is_space cs) = q # qs"
      using re_split_nonempty[of "dropWhile is_space cs"] by (cases "re_split (dropWhile is_space cs)") auto
    from 2(1)[OF True q, of "[]"] have "split_ws (dropWhile is_space cs) = concat (map split_ws ps)"
      using ps q by simp
    then have r: "split_ws rest = concat (map split_ws ps)"
      using cs h split_ws_dropWhile[of cs] by simp
    have "split_ws (x @ c # cs) = split_ws ((x @ [c]) @ h # rest)" using cs by simp
    also have "\<dots> = split_ws (x @ [c]) @ split_ws rest" using h by (rule split_ws_app_space)
    finally show ?thesis using r p by simp
  next
    case False
    obtain q qs where q: "re_split cs = q # qs"
      using re_split_nonempty[of cs] by (cases "re_split cs") auto
    with False 2(3) have p: "p = c # q" and ps: "ps = qs" by auto
    from 2(2)[OF False q, of "x @ [c]"] show ?thesis using p ps by simp
  qed
qed

lemma re_split_words: "concat (map split_ws (re_split t)) = split_ws t"
proof -
  obtain p ps where "re_split t = p # ps"
    using re_split_nonempty[of t] by (cases "re_split t") auto
  then show ?thesis using re_split_words_prefix[of t p ps "[]"] by simp
qed

lemma split_ws_drop_nonspace:
  "length (split_ws ys) \<le> Suc (length (split_ws (dropWhile (\<lambda>x. \<not> is_space x) ys)))"
  by (cases ys) auto

lemma split_ws_append_count:
  "length (split_ws xs) + length (split_ws ys) \<le> Suc (length (split_ws (xs @ ys)))"
proof (induction xs rule: split_ws.induct)
  case 1
  then show ?case by simp
next
  case (2 d ds)
  show ?case
  proof (cases "is_space d")
    case True
    with 2 show ?thesis by simp
  next
    case False
    let ?ns = "\<lambda>x. \<not> is_space x"
    show ?thesis
    proof (cases "\<forall>x\<in>set ds. ?ns x")
      case True
      then have e: "dropWhile ?ns (ds @ ys) = dropWhile ?ns ys" "dropWhile ?ns ds = []"
        by (simp_all add: dropWhile_append)
      from False show ?thesis using split_ws_drop_nonspace[of ys] by (simp add: e)
    next
      case nall: False
      then have e: "dropWhile ?ns (ds @ ys) = dropWhile ?ns ds @ ys"
        by (auto simp: dropWhile_append)
      from False 2(2)[OF False] show ?thesis by (simp add: e)
    qed
  qed
qed

lemma split_ws_space_append:
  "split_ws (xs @ CHR '' '' # ys) = split_ws xs @ split_ws ys"
  using is_space_sp by (rule split_ws_app_space)

lemma chunk_loop_words:
  "chunk_loop n ss chunks current = (chunks', current') \<Longrightarrow>
   concat (map split_ws chunks') @ split_ws current'
     = concat (map split_ws chunks) @ split_ws current @ concat (map split_ws ss)"
proof (induction ss arbitrary: chunks current)
  case Nil
  then show ?case by simp
next
  case (Cons s ss)
  show ?case
  proof (cases "int (length (split_ws (current @ s))) < n")
    case True
    with Cons.prems have "chunk_loop n ss chunks (current @ '' '' @ s) = (chunks', current')"
      by simp
    from Cons.IH[OF this] show ?thesis by (simp add: split_ws_space_append)
  next
    case False
    with Cons.prems have "chunk_loop n ss (chunks @ [strip current]) s = (chunks', current')"
      by simp
    from Cons.IH[OF this] show ?thesis by (simp add: split_ws_strip)
  qed
qed

lemma strip_Nil_words: "strip s = [] \<Longrightarrow> split_ws s = []"
  using split_ws_strip[of s] by simp

lemma chunk_text_v2_lossless: "concat (map split_ws (chunk_text_v2 t n)) = split_ws t"
proof -
  obtain chunks current where l: "chunk_loop n (re_split t) [] [] = (chunks, current)"
    by (cases "chunk_loop n (re_split t) [] []") auto
  from chunk_loop_words[OF l] have w: "concat (map split_ws chunks) @ split_ws current = split_ws t"
    by (simp add: re_split_words)
  show ?thesis
  proof (cases "strip current = []")
    case True
    with l w show ?thesis by (simp add: chunk_text_v2_def strip_Nil_words)
  next
    case False
    with l w show ?thesis by (simp add: chunk_text_v2_def split_ws_strip)
  qed
qed

lemma chunk_loop_bound:
  assumes "chunk_loop n ss chunks current = (chunks', current')"
    and "set ss \<subseteq> S"
    and "\<forall>c\<in>set chunks. int (length (split_ws c)) \<le> n \<or> (\<exists>s\<in>S. c = strip s)"
    and "int (length (split_ws current)) \<le> n \<or> current \<in> S"
  shows "(\<forall>c\<in>set chunks'. int (length (split_ws c)) \<le> n \<or> (\<exists>s\<in>S. c = strip s))
       \<and> (int (length (split_ws current')) \<le> n \<or> current' \<in> S)"
  using assms
proof (induction ss arbitrary: chunks current)
  case Nil
  then show ?case by simp
next
  case (Cons s ss)
  show ?case
  proof (cases "int (length (split_ws (current @ s))) < n")
    case True
    with Cons.prems(1) have l: "chunk_loop n ss chunks (current @ '' '' @ s) = (chunks', current')"
      by simp
    have "length (split_ws current) + length (split_ws s) \<le> Suc (length (split_ws (current @ s)))"
      by (rule split_ws_append_count)
    with True have "int (length (split_ws (current @ '' '' @ s))) \<le> n"
      by (simp add: split_ws_space_append)
    then have c: "int (length (split_ws (current @ '' '' @ s))) \<le> n \<or> current @ '' '' @ s \<in> S"
      by simp
    from Cons.prems(2) have s: "set ss \<subseteq> S" by simp
    from Cons.IH[OF l s Cons.prems(3) c] show ?thesis .
  next
    case False
    with Cons.prems(1) have l: "chunk_loop n ss (chunks @ [strip current]) s = (chunks', current')"
      by simp
    from Cons.prems(4) have "int (length (split_ws (strip current))) \<le> n \<or> (\<exists>s\<in>S. strip current = strip s)"
      by (auto simp: split_ws_strip)
    with Cons.prems(3)
    have c: "\<forall>c\<in>set (chunks @ [strip current]). int (length (split_ws c)) \<le> n \<or> (\<exists>s\<in>S. c = strip s)"
      by auto
    from Cons.prems(2) have s: "set ss \<subseteq> S" and s': "int (length (split_ws s)) \<le> n \<or> s \<in> S"
      by simp_all
    from Cons.IH[OF l s c s'] show ?thesis .
  qed
qed

lemma chunk_text_v2_bound:
  assumes "0 \<le> n" and "c \<in> set (chunk_text_v2 t n)"
  shows "int (length (split_ws c)) \<le> n
       \<or> (\<exists>s\<in>set (re_split t). c = strip s \<and> n < int (length (split_ws s)))"
proof -
  obtain chunks current where l: "chunk_loop n (re_split t) [] [] = (chunks, current)"
    by (cases "chunk_loop n (re_split t) [] []") auto
  have i: "int (length (split_ws [])) \<le> n \<or> [] \<in> set (re_split t)" using assms(1) by simp
  from chunk_loop_bound[OF l subset_refl _ i]
  have inv: "\<forall>c\<in>set chunks. int (length (split_ws c)) \<le> n \<or> (\<exists>s\<in>set (re_split t). c = strip s)"
    and cur: "int (length (split_ws current)) \<le> n \<or> current \<in> set (re_split t)"
    by simp_all
  from assms(2) l have "c \<in> set chunks \<or> c = strip current"
    by (auto simp: chunk_text_v2_def split: if_splits)
  then have "int (length (split_ws c)) \<le> n \<or> (\<exists>s\<in>set (re_split t). c = strip s)"
    using inv cur by (auto simp: split_ws_strip)
  then show ?thesis by (auto simp: split_ws_strip)
qed

lemma strip_space: "strip '' '' = []"
  by (simp add: strip_def is_space_def)

lemma chunk_text_v2_empty: "0 < n \<Longrightarrow> chunk_text_v2 [] n = []"
  by (simp add: chunk_text_v2_def strip_space)

lemma chunk_text_empty: "0 < n \<Longrightarrow> chunk_text [] n = Inr []"
  by (simp add: chunk_text_def py_range_def range_from.simps)

subsection \<open>Where the sentence chunker emits an empty chunk\<close>

lemma terminator_not_space: "is_terminator c \<Longrightarrow> \<not> is_space c"
  by (auto simp: is_terminator_def is_space_def)

lemma strip_eq_Nil: "(strip s = []) = (\<forall>c\<in>set s. is_space c)"
proof
  assume "strip s = []"
  then have a: "\<forall>c\<in>set (dropWhile is_space s). is_space c" by (simp add: strip_def)
  have "dropWhile is_space s = []"
  proof (rule ccontr)
    assume ne: "dropWhile is_space s \<noteq> []"
    then have "\<not> is_space (hd (dropWhile is_space s))" by (rule hd_dropWhile)
    moreover from ne a have "is_space (hd (dropWhile is_space s))" by simp
    ultimately show False by simp
  qed
  then show "\<forall>c\<in>set s. is_space c" by simp
next
  assume a: "\<forall>c\<in>set s. is_space c"
  then have d: "dropWhile is_space s = []" by simp
  show "strip s = []" by (simp add: strip_def d)
qed

lemma split_ws_prefix_count: "length (split_ws xs) \<le> length (split_ws (xs @ ys))"
proof (induction xs rule: split_ws.induct)
  case 1
  then show ?case by simp
next
  case (2 d ds)
  show ?case
  proof (cases "is_space d")
    case True
    with 2 show ?thesis by simp
  next
    case False
    let ?ns = "\<lambda>x. \<not> is_space x"
    show ?thesis
    proof (cases "\<forall>x\<in>set ds. ?ns x")
      case True
      then have e: "dropWhile ?ns ds = []" by simp
      from False show ?thesis by (simp add: e)
    next
      case nall: False
      then have e: "dropWhile ?ns (ds @ ys) = dropWhile ?ns ds @ ys"
        by (auto simp: dropWhile_append)
      from False 2(2)[OF False] show ?thesis by (simp add: e)
    qed
  qed
qed

lemma re_split_butlast_terminator:
  "p \<in> set (butlast (re_split t)) \<Longrightarrow> \<exists>c\<in>set p. is_terminator c"
proof (induction t arbitrary: p rule: re_split.induct)
  case 1
  then show ?case by simp
next
  case (2 c cs)
  show ?case
  proof (cases "is_terminator c \<and> cs \<noteq> [] \<and> is_space (hd cs)")
    case True
    with 2(3) have "p = [c] \<or> p \<in> set (butlast (re_split (dropWhile is_space cs)))"
      by (simp add: re_split_nonempty)
    then show ?thesis
    proof
      assume "p = [c]"
      with True show ?thesis by simp
    next
      assume "p \<in> set (butlast (re_split (dropWhile is_space cs)))"
      with 2(1)[OF True] show ?thesis .
    qed
  next
    case False
    obtain q qs where q: "re_split cs = q # qs"
      using re_split_nonempty[of cs] by (cases "re_split cs") auto
    from False have "re_split (c # cs) = (c # q) # qs" by (auto simp: q)
    with 2(3) have m: "p \<in> set (butlast ((c # q) # qs))" by simp
    show ?thesis
    proof (cases "qs = []")
      case True
      with m show ?thesis by simp
    next
      case ne: False
      with m have "p = c # q \<or> p \<in> set (butlast qs)" by simp
      then show ?thesis
      proof
        assume p: "p = c # q"
        from ne q have "q \<in> set (butlast (re_split cs))" by simp
        from 2(2)[OF False this] p show ?thesis by auto
      next
        assume "p \<in> set (butlast qs)"
        with ne q have "p \<in> set (butlast (re_split cs))" by simp
        from 2(2)[OF False this] show ?thesis .
      qed
    qed
  qed
qed

lemma re_split_butlast_nonblank:
  "p \<in> set (butlast (re_split t)) \<Longrightarrow> strip p \<noteq> []"
  using re_split_butlast_terminator[of p t] terminator_not_space by (auto simp: strip_eq_Nil)

lemma chunk_loop_prefix:
  "chunk_loop n ss chunks current = (chunks', current') \<Longrightarrow> \<exists>new. chunks' = chunks @ new"
proof (induction ss arbitrary: chunks current)
  case Nil
  then show ?case by simp
next
  case (Cons s ss)
  show ?case
  proof (cases "int (length (split_ws (current @ s))) < n")
    case True
    with Cons.prems have "chunk_loop n ss chunks (current @ '' '' @ s) = (chunks', current')" by simp
    from Cons.IH[OF this] show ?thesis .
  next
    case False
    with Cons.prems have "chunk_loop n ss (chunks @ [strip current]) s = (chunks', current')" by simp
    from Cons.IH[OF this] show ?thesis by auto
  qed
qed

lemma chunk_loop_nonblank:
  assumes "chunk_loop n ss chunks current = (chunks', current')"
    and "ss = [] \<or> strip current \<noteq> []"
    and "\<forall>s\<in>set (butlast ss). strip s \<noteq> []"
  shows "\<exists>new. chunks' = chunks @ new \<and> (\<forall>c\<in>set new. c \<noteq> [])"
  using assms
proof (induction ss arbitrary: chunks current)
  case Nil
  then show ?case by simp
next
  case (Cons s ss)
  from Cons.prems(2) have cur: "strip current \<noteq> []" by simp
  from Cons.prems(3) have bl: "\<forall>s\<in>set (butlast ss). strip s \<noteq> []"
    by (auto split: if_splits)
  show ?case
  proof (cases "int (length (split_ws (current @ s))) < n")
    case True
    with Cons.prems(1) have l: "chunk_loop n ss chunks (current @ '' '' @ s) = (chunks', current')"
      by simp
    from cur have "strip (current @ '' '' @ s) \<noteq> []" by (auto simp: strip_eq_Nil)
    then have c: "ss = [] \<or> strip (current @ '' '' @ s) \<noteq> []" by simp
    from Cons.IH[OF l c bl] show ?thesis .
  next
    case False
    with Cons.prems(1) have l: "chunk_loop n ss (chunks @ [strip current]) s = (chunks', current')"
      by simp
    from Cons.prems(3) have c: "ss = [] \<or> strip s \<noteq> []" by (cases ss) auto
    from Cons.IH[OF l c bl] obtain new
      where "chunks' = (chunks @ [strip current]) @ new" "\<forall>c\<in>set new. c \<noteq> []" by blast
    with cur have "chunks' = chunks @ (strip current # new) \<and> (\<forall>c\<in>set (strip current # new). c \<noteq> [])"
      by simp
    then show ?thesis by blast
  qed
qed

lemma chunk_loop_oversized:
  assumes "chunk_loop n (s # ss) chunks current = (chunks', current')"
    and "n \<le> int (length (split_ws current))"
  shows "\<exists>new. chunks' = chunks @ strip current # new"
proof -
  have "length (split_ws current) \<le> length (split_ws (current @ s))"
    by (rule split_ws_prefix_count)
  with assms(2) have "\<not> int (length (split_ws (current @ s))) < n" by simp
  with assms(1) have "chunk_loop n ss (chunks @ [strip current]) s = (chunks', current')" by simp
  from chunk_loop_prefix[OF this] show ?thesis by auto
qed

lemma chunk_text_v2_tail:
  assumes r: "re_split t = s # rest"
    and l: "chunk_loop n rest chunks0 cur0 = (chunks, current)"
    and full: "chunk_loop n (re_split t) [] [] = (chunks, current)"
    and c0: "strip s \<noteq> [] \<Longrightarrow> strip cur0 \<noteq> []"
  shows "\<exists>tail. chunk_text_v2 t n = chunks0 @ tail \<and> (\<forall>c\<in>set tail. c \<noteq> [])"
proof -
  have bl: "\<forall>p\<in>set (butlast rest). strip p \<noteq> []"
  proof
    fix p assume p: "p \<in> set (butlast rest)"
    then have "rest \<noteq> []" by auto
    with p r have "p \<in> set (butlast (re_split t))" by simp
    then show "strip p \<noteq> []" by (rule re_split_butlast_nonblank)
  qed
  have cur: "rest = [] \<or> strip cur0 \<noteq> []"
  proof (cases "rest = []")
    case True
    then show ?thesis by simp
  next
    case False
    with r have "s \<in> set (butlast (re_split t))" by simp
    then have "strip s \<noteq> []" by (rule re_split_butlast_nonblank)
    with c0 show ?thesis by simp
  qed
  from chunk_loop_nonblank[OF l cur bl] obtain new
    where new: "chunks = chunks0 @ new" "\<forall>c\<in>set new. c \<noteq> []" by blast
  show ?thesis
  proof (cases "strip current = []")
    case True
    with full new have "chunk_text_v2 t n = chunks0 @ new" by (simp add: chunk_text_v2_def)
    with new(2) show ?thesis by blast
  next
    case False
    with full new have "chunk_text_v2 t n = chunks0 @ (new @ [strip current])"
      by (simp add: chunk_text_v2_def)
    moreover from False new(2) have "\<forall>c\<in>set (new @ [strip current]). c \<noteq> []" by simp
    ultimately show ?thesis by blast
  qed
qed

lemma strip_Nil: "strip [] = []"
  by (simp add: strip_def)

lemma chunk_text_v2_shape:
  assumes r: "re_split t = s # rest"
  shows "\<exists>tail. chunk_text_v2 t n = (if int (length (split_ws s)) < n then [] else [[]]) @ tail
          \<and> (\<forall>c\<in>set tail. c \<noteq> [])"
proof (cases "int (length (split_ws s)) < n")
  case True
  obtain chunks current where l: "chunk_loop n rest [] ('' '' @ s) = (chunks, current)"
    by (cases "chunk_loop n rest [] ('' '' @ s)") auto
  with r True have full: "chunk_loop n (re_split t) [] [] = (chunks, current)" by simp
  have c0: "strip s \<noteq> [] \<Longrightarrow> strip ('' '' @ s) \<noteq> []" by (auto simp: strip_eq_Nil)
  from chunk_text_v2_tail[OF r l full c0] True show ?thesis by simp
next
  case False
  obtain chunks current where l: "chunk_loop n rest [[]] s = (chunks, current)"
    by (cases "chunk_loop n rest [[]] s") auto
  with r False have full: "chunk_loop n (re_split t) [] [] = (chunks, current)"
    by (simp add: strip_Nil)
  from chunk_text_v2_tail[OF r l full] False show ?thesis by simp
qed

lemma chunk_text_v2_oversized_first:
  assumes r: "re_split t = s # rest" and n: "0 < n" and big: "n \<le> int (length (split_ws s))"
  shows "\<exists>tail. chunk_text_v2 t n = [] # strip s # tail"
proof -
  from n big have "split_ws s \<noteq> []" by auto
  then have sne: "strip s \<noteq> []" using strip_Nil_words by blast
  obtain chunks current where l: "chunk_loop n rest [[]] s = (chunks, current)"
    by (cases "chunk_loop n rest [[]] s") auto
  with r big have full: "chunk_loop n (re_split t) [] [] = (chunks, current)"
    by (simp add: strip_Nil)
  show ?thesis
  proof (cases rest)
    case Nil
    with l have "chunks = [[]]" "current = s" by simp_all
    with full sne show ?thesis by (simp add: chunk_text_v2_def)
  next
    case (Cons s' ss)
    with l have "chunk_loop n (s' # ss) [[]] s = (chunks, current)" by simp
    from chunk_loop_oversized[OF this big] obtain new where "chunks = [] # strip s # new" by auto
    with full show ?thesis by (simp add: chunk_text_v2_def)
  qed
qed

section \<open>Claims about the chunkers\<close>

text \<open>
  C2.  For a positive word bound both chunkers are lossless: the words of the chunks,
  taken in order (equally, the words of the chunks joined by a blank), are exactly the
  words of the text; the window chunker returns normally; and the empty text gives no
  chunk under either policy.
\<close>

theorem chunking_lossless:
  assumes "0 < max_words"
  shows "(\<exists>chunks. chunk_text text max_words = Inr chunks
            \<and> concat (map split_ws chunks) = split_ws text
            \<and> split_ws (py_join '' '' chunks) = split_ws text)
       \<and> concat (map split_ws (chunk_text_v2 text max_words)) = split_ws text
       \<and> split_ws (py_join '' '' (chunk_text_v2 text max_words)) = split_ws text
       \<and> chunk_text [] max_words = Inr []
       \<and> chunk_text_v2 [] max_words = []"
proof -
  from chunk_text_lossless[OF assms, of "text"]
  have "\<exists>chunks. chunk_text text max_words = Inr chunks
            \<and> concat (map split_ws chunks) = split_ws text
            \<and> split_ws (py_join '' '' chunks) = split_ws text"
    by (auto simp: split_ws_join_pieces)
  moreover have "split_ws (py_join '' '' (chunk_text_v2 text max_words)) = split_ws text"
    by (simp add: split_ws_join_pieces chunk_text_v2_lossless)
  ultimately show ?thesis
    using assms by (simp add: chunk_text_v2_lossless chunk_text_empty chunk_text_v2_empty)
qed

theorem chunking_lossless_witness:
  "(0::int) < 2
   \<and> chunk_text ''one two  three. four'' 2 = Inr [''one two'', ''three. four'']
   \<and> chunk_text_v2 ''one two  three. four'' 2 = [[], ''one two  three.'', ''four'']
   \<and> split_ws ''one two  three. four'' = [''one'', ''two'', ''three.'', ''four'']
   \<and> split_ws (py_join '' '' [[], ''one two  three.'', ''four'']) = split_ws ''one two  three. four''"
  using chunking_lossless[of 2 "''one two  three. four''"]
  by (simp add: chunk_text_def py_range_def range_from.simps slice_def chunk_text_v2_def
      is_space_def is_terminator_def strip_def)

text \<open>
  C6.  For a positive word bound, every chunk of the window chunker has at most
  \<open>max_words\<close> words, and every chunk of the sentence chunker either has at most
  \<open>max_words\<close> words or is one sentence of the text (stripped) that alone has more.
\<close>

theorem chunking_respects_bound:
  assumes "0 < max_words"
  shows "(\<exists>chunks. chunk_text text max_words = Inr chunks
            \<and> (\<forall>c\<in>set chunks. int (length (split_ws c)) \<le> max_words))
       \<and> (\<forall>c\<in>set (chunk_text_v2 text max_words).
             int (length (split_ws c)) \<le> max_words
             \<or> (\<exists>s\<in>set (re_split text). c = strip s \<and> max_words < int (length (split_ws s))))"
proof -
  from chunk_text_lossless[OF assms, of "text"] obtain chunks
    where c: "chunk_text text max_words = Inr chunks" by blast
  then have "\<forall>c\<in>set chunks. int (length (split_ws c)) \<le> max_words"
    using chunk_text_bound by blast
  with c show ?thesis using assms chunk_text_v2_bound[of max_words _ "text"] by simp
qed

theorem chunking_respects_bound_witness:
  "(0::int) < 2
   \<and> chunk_text ''a b c d e'' 2 = Inr [''a b'', ''c d'', ''e'']
   \<and> chunk_text_v2 ''a b c. d e'' 2 = [[], ''a b c.'', ''d e'']
   \<and> re_split ''a b c. d e'' = [''a b c.'', ''d e'']
   \<and> strip ''a b c.'' = ''a b c.''
   \<and> length (split_ws ''a b c.'') = 3
   \<and> length (split_ws ''d e'') = 2"
  using chunking_respects_bound[of 2 "''a b c. d e''"]
  by (simp add: chunk_text_def py_range_def range_from.simps slice_def chunk_text_v2_def
      is_space_def is_terminator_def strip_def)

text \<open>
  C10.  Sentence chunker: when the first sentence of the text has at least
  \<open>max_words\<close> words, the first chunk is the empty string (and for a positive bound
  the second chunk is that sentence, stripped); whatever the text, no chunk after the
  first is empty.
\<close>

theorem empty_first_chunk_v2:
  assumes "re_split text = s # rest"
  shows "(max_words \<le> int (length (split_ws s)) \<longrightarrow>
            (\<exists>tail. chunk_text_v2 text max_words = [] # tail)
          \<and> (0 < max_words \<longrightarrow> (\<exists>tail. chunk_text_v2 text max_words = [] # strip s # tail)))
       \<and> (\<forall>c\<in>set (tl (chunk_text_v2 text max_words)). c \<noteq> [])"
proof -
  from chunk_text_v2_shape[OF assms, of max_words] obtain tail
    where t: "chunk_text_v2 text max_words
                = (if int (length (split_ws s)) < max_words then [] else [[]]) @ tail"
      and ne: "\<forall>c\<in>set tail. c \<noteq> []" by blast
  have a: "max_words \<le> int (length (split_ws s)) \<Longrightarrow> \<exists>tail. chunk_text_v2 text max_words = [] # tail"
    using t by simp
  have b: "max_words \<le> int (length (split_ws s)) \<Longrightarrow> 0 < max_words
           \<Longrightarrow> \<exists>tail. chunk_text_v2 text max_words = [] # strip s # tail"
    using chunk_text_v2_oversized_first[OF assms] by blast
  have c: "\<forall>c\<in>set (tl (chunk_text_v2 text max_words)). c \<noteq> []"
  proof (cases "int (length (split_ws s)) < max_words")
    case True
    with t have "chunk_text_v2 text max_words = tail" by simp
    with ne show ?thesis by (cases tail) auto
  next
    case False
    with t have "tl (chunk_text_v2 text max_words) = tail" by simp
    with ne show ?thesis by simp
  qed
  from a b c show ?thesis by blast
qed

theorem empty_first_chunk_v2_witness:
  "re_split ''a b c. d e'' = [''a b c.'', ''d e'']
   \<and> (2::int) \<le> int (length (split_ws ''a b c.''))
   \<and> strip ''a b c.'' = ''a b c.''
   \<and> chunk_text_v2 ''a b c. d e'' 2 = [[], ''a b c.'', ''d e'']"
  using empty_first_chunk_v2[of "''a b c. d e''" "''a b c.''" "[''d e'']" 2]
  by (simp add: chunk_text_v2_def is_space_def is_terminator_def strip_def)

section \<open>The model client and the event loops\<close>

lemma ask_gpt_eq:
  "ask_gpt client prompt model log
     = (Inr (answer (client log model prompt)), log @ [(model, prompt)])"
  by (simp add: ask_gpt_def responses_create_def answer_def split: sum.splits)

lemma extract_events_eq:
  "extract_events_from_chunk client chunk md log
     = (Inr (answer (client log ''gpt-4.1-mini'' (extract_prompt chunk md))),
        log @ [(''gpt-4.1-mini'', extract_prompt chunk md)])"
  by (simp add: extract_events_from_chunk_def ask_gpt_eq)

lemma replay_append:
  "replay client log (xs @ ys) = replay client log xs @ replay client (log @ xs) ys"
  by (induction xs arbitrary: log) auto


lemma events_of_chunks_eq:
  "events_of_chunks client chunks md all_events log
     = (Inr (all_events @ replay client log (map (\<lambda>chunk. (''gpt-4.1-mini'', extract_prompt chunk md)) chunks)),
        log @ map (\<lambda>chunk. (''gpt-4.1-mini'', extract_prompt chunk md)) chunks)"
  by (induction chunks arbitrary: all_events log) (auto simp: extract_events_eq)

lemma chunk_text_300: "chunk_text (content a) 300 = Inr (chunks_of a)"
  using chunk_text_lossless[of 300 "content a"] by (auto simp: chunks_of_def)

lemma events_of_articles_eq:
  "events_of_articles client articles all_events log
     = (Inr (all_events @ replay client log (extraction_calls articles)),
        log @ extraction_calls articles)"
proof (induction articles arbitrary: all_events log)
  case Nil
  then show ?case by (simp add: extraction_calls_def)
next
  case (Cons a articles)
  have c: "chunk_text (content a) 300 = Inr (chunks_of a)" by (rule chunk_text_300)
  have e: "extraction_calls (a # articles)
           = map (\<lambda>chunk. (''gpt-4.1-mini'',
                    extract_prompt chunk \<lparr>title = title a, publisher = publisher a,
                                          published = published a, url = url a\<rparr>)) (chunks_of a)
             @ extraction_calls articles"
    by (simp add: extraction_calls_def)
  show ?case by (simp add: c events_of_chunks_eq Cons.IH e replay_append)
qed

lemma merge_eq:
  "merge_events_to_timeline client events_list log
     = (Inr (answer (client log ''gpt-4.1'' (merge_prompt events_list))),
        log @ [(''gpt-4.1'', merge_prompt events_list)])"
  by (simp add: merge_events_to_timeline_def ask_gpt_eq)

lemma search_handler_completed:
  assumes "strip query \<noteq> []"
    and "fetch_articles w (take 10 (search_google_news w query)) [] = Inr articles"
  shows "search_handler w client query st log
     = (Completed,
        \<lparr>timeline = Some (answer (client (log @ extraction_calls articles) ''gpt-4.1''
                               (merge_prompt (py_join nl (replay client log (extraction_calls articles)))))),
          articles_data = Some articles,
          translated_timeline = Some [],
          highlights = Some [],
          comparison = Some []\<rparr>,
        log @ extraction_calls articles
          @ [(''gpt-4.1'', merge_prompt (py_join nl (replay client log (extraction_calls articles))))])"
  using assms by (simp add: search_handler_def events_of_articles_eq merge_eq)




section \<open>The article loop\<close>

lemma fetch_articles_acc:
  "fetch_articles w es acc = Inr arts \<Longrightarrow> arts = acc @ List.map_filter (article_of w) es"
proof (induction es arbitrary: acc)
  case Nil
  then show ?case by (simp add: List.map_filter_simps)
next
  case (Cons e es)
  show ?case
  proof (cases "resolve_real_url w (link e)")
    case (Inl ex)
    with Cons.prems show ?thesis by simp
  next
    case (Inr real_url)
    show ?thesis
    proof (cases "extract_text w real_url")
      case None
      with Inr Cons.prems have "fetch_articles w es acc = Inr arts" by simp
      from Cons.IH[OF this] Inr None show ?thesis
        by (simp add: List.map_filter_simps article_of_def)
    next
      case (Some body)
      with Inr Cons.prems obtain a where a: "article_of w e = Some a"
        and f: "fetch_articles w es (acc @ [a]) = Inr arts"
        by (simp add: article_of_def)
      from Cons.IH[OF f] a show ?thesis by (simp add: List.map_filter_simps)
    qed
  qed
qed

lemma fetch_articles_raises:
  "fetch_articles w es acc = Inl ex \<Longrightarrow> \<exists>e\<in>set es. resolve_real_url w (link e) = Inl ex"
proof (induction es arbitrary: acc)
  case Nil
  then show ?case by simp
next
  case (Cons e es)
  show ?case
  proof (cases "resolve_real_url w (link e)")
    case (Inl ex')
    with Cons.prems show ?thesis by simp
  next
    case (Inr real_url)
    with Cons.prems obtain acc' where "fetch_articles w es acc' = Inl ex"
      by (cases "extract_text w real_url") auto
    from Cons.IH[OF this] show ?thesis by auto
  qed
qed

lemma length_map_filter_le: "length (List.map_filter f xs) \<le> length xs"
  by (induction xs) (auto simp: List.map_filter_simps split: option.splits)

lemma fetch_articles_returns:
  assumes "\<forall>e\<in>set es. \<exists>u. resolve_real_url w (link e) = Inr u"
  shows "fetch_articles w es [] = Inr (List.map_filter (article_of w) es)"
proof (cases "fetch_articles w es []")
  case (Inl ex)
  from fetch_articles_raises[OF this] assms show ?thesis by auto
next
  case (Inr arts)
  from fetch_articles_acc[OF this] Inr show ?thesis by simp
qed



section \<open>The derived operations\<close>

lemma translate_handler_frame:
  "translate_handler client target_lang st log = (out, st', log') \<Longrightarrow>
   timeline st' = timeline st \<and> articles_data st' = articles_data st
   \<and> highlights st' = highlights st \<and> comparison st' = comparison st"
  by (auto simp: translate_handler_def translate_timeline_def ask_gpt_eq split: option.splits)

lemma highlights_handler_frame:
  "highlights_handler client st log = (out, st', log') \<Longrightarrow>
   timeline st' = timeline st \<and> articles_data st' = articles_data st
   \<and> translated_timeline st' = translated_timeline st \<and> comparison st' = comparison st"
  by (auto simp: highlights_handler_def extract_key_highlights_def ask_gpt_eq split: option.splits)

lemma compare_handler_frame:
  "compare_handler client st log = (out, st', log') \<Longrightarrow>
   timeline st' = timeline st \<and> articles_data st' = articles_data st
   \<and> translated_timeline st' = translated_timeline st \<and> highlights st' = highlights st"
  by (auto simp: compare_handler_def compare_sources_def ask_gpt_eq split: option.splits)

lemma script_frame:
  assumes "button \<noteq> Search_click"
    and "script w client query target_lang button st log = (out, st', log')"
  shows "timeline st' = timeline st \<and> articles_data st' = articles_data st
       \<and> (button \<noteq> Translate_click \<longrightarrow> translated_timeline st' = translated_timeline st)
       \<and> (button \<noteq> Highlights_click \<longrightarrow> highlights st' = highlights st)
       \<and> (button \<noteq> Compare_click \<longrightarrow> comparison st' = comparison st)"
proof (cases "timeline st = None")
  case True
  with assms show ?thesis by (simp add: script_def)
next
  case False
  show ?thesis
  proof (cases button)
    case No_click
    with assms False show ?thesis by (simp add: script_def)
  next
    case Search_click
    with assms show ?thesis by simp
  next
    case Translate_click
    with assms False have "translate_handler client target_lang st log = (out, st', log')"
      by (simp add: script_def)
    from translate_handler_frame[OF this] Translate_click show ?thesis by simp
  next
    case Highlights_click
    with assms False have "highlights_handler client st log = (out, st', log')"
      by (simp add: script_def)
    from highlights_handler_frame[OF this] Highlights_click show ?thesis by simp
  next
    case Compare_click
    with assms False have "compare_handler client st log = (out, st', log')"
      by (simp add: script_def)
    from compare_handler_frame[OF this] Compare_click show ?thesis by simp
  qed
qed

lemma interact_frame:
  assumes "\<forall>i\<in>set is. derived i"
  shows "timeline (fst (interact w client is st log)) = timeline st
       \<and> articles_data (fst (interact w client is st log)) = articles_data st"
  using assms
proof (induction "is" arbitrary: st log)
  case Nil
  then show ?case by simp
next
  case (Cons i "is")
  obtain out st1 log1
    where s: "script w client (typed_query i) (typed_lang i) (pressed i) st log = (out, st1, log1)"
    by (cases "script w client (typed_query i) (typed_lang i) (pressed i) st log") auto
  from Cons.prems have "pressed i \<noteq> Search_click" by (auto simp: derived_def)
  from script_frame[OF this s]
  have f: "timeline st1 = timeline st" "articles_data st1 = articles_data st" by simp_all
  from Cons.prems have "\<forall>i\<in>set is. derived i" by simp
  from Cons.IH[OF this, of st1 log1] s f show ?case by simp
qed

section \<open>The search handler of \<open>app.py\<close>: the calls it makes\<close>










section \<open>Claims about the pipeline\<close>

text \<open>
  C1.  The claim asks for a zero-results outcome, with no merge call, when no article
  yields text.  The search handlers of \<open>app_selenium_3.py\<close> and \<open>app.py\<close> have no such
  branch: in a search where no page can be downloaded, each of them completes, sends
  the merge prompt once with an empty event text, and stores the reply as the timeline.
\<close>

theorem search_without_articles_runs_merge:
  "fetch_articles unreadable_web (take 10 (search_google_news unreadable_web ''metro fire'')) [] = Inr []
   \<and> search_handler unreadable_web canned_client ''metro fire'' empty_session []
     = (Completed,
        \<lparr>timeline = Some ''- [1 Jan] Fire broke out (source: P)'',
          articles_data = Some [],
          translated_timeline = Some [],
          highlights = Some [],
          comparison = Some []\<rparr>,
        [(''gpt-4.1'', merge_prompt [])])
   \<and> search_handler_app unreadable_web plain_lib canned_client ''metro fire'' empty_app_session []
     = (Completed,
        \<lparr>app_timeline = Some ''- [1 Jan] Fire broke out (source: P)'',
          app_articles_data = Some [],
          app_translated_timeline = Some [],
          app_highlights = Some [],
          app_comparison = Some []\<rparr>,
        [(''gpt-4.1'', merge_prompt_app [])])"
  by (simp add: search_handler_def search_handler_app_def search_google_news_def
      unreadable_web_def three_entry_web_def
      quiet_web_def feed_entry_def resolve_real_url_def extract_text_def canned_client_def
      merge_events_to_timeline_def merge_events_to_timeline_app_def ask_gpt_def
      responses_create_def strip_def is_space_def)

text \<open>
  The extractor of \<open>archive/app_selenium_2.py\<close> lets the client's exception through.
\<close>

theorem extractor_v2_propagates_counterexample:
  "extract_events_from_chunk_v2 failing_client ''Fire broke out.'' sample_metadata []
     = (Inl (PyException ''APIConnectionError'' ''Connection error.''),
        [(''gpt-4.1-mini'', extract_prompt_v2 ''Fire broke out.'' sample_metadata)])"
  by (simp add: extract_events_from_chunk_v2_def responses_create_def failing_client_def)

text \<open>
  C3 (as amended).  The extractor of \<open>app.py\<close> and \<open>app_selenium_3.py\<close>, which
  calls the model through \<open>ask_gpt\<close>, always returns a string; when the model call
  raises \<open>e\<close> the string is the marker \<open>[GPT Error] \<close> followed by \<open>str(e)\<close>, and
  the chunk loop appends it to the event list like any other record.
\<close>

theorem extractor_absorbs_failure:
  "(\<exists>s log'. extract_events_from_chunk client chunk metadata log = (Inr s, log'))
   \<and> (client log ''gpt-4.1-mini'' (extract_prompt chunk metadata) = Inl e \<longrightarrow>
        extract_events_from_chunk client chunk metadata log
          = (Inr (''[GPT Error] '' @ exc_str e),
             log @ [(''gpt-4.1-mini'', extract_prompt chunk metadata)])
      \<and> events_of_chunks client [chunk] metadata all_events log
          = (Inr (all_events @ [''[GPT Error] '' @ exc_str e]),
             log @ [(''gpt-4.1-mini'', extract_prompt chunk metadata)]))"
  by (simp add: extract_events_eq answer_def)

theorem extractor_absorbs_failure_witness:
  "failing_client [] ''gpt-4.1-mini'' (extract_prompt ''Fire broke out.'' sample_metadata)
     = Inl (PyException ''APIConnectionError'' ''Connection error.'')
   \<and> extract_events_from_chunk failing_client ''Fire broke out.'' sample_metadata []
     = (Inr ''[GPT Error] Connection error.'',
        [(''gpt-4.1-mini'', extract_prompt ''Fire broke out.'' sample_metadata)])"
  using extractor_absorbs_failure[of failing_client "''Fire broke out.''" sample_metadata "[]"
      "PyException ''APIConnectionError'' ''Connection error.''" "[]"]
  by (simp add: failing_client_def)

text \<open>
  C4.  When the model call of the merge step raises \<open>e\<close>,
  \<open>merge_events_to_timeline\<close> returns the marker \<open>[GPT Error] \<close> followed by
  \<open>str(e)\<close>.
\<close>

theorem merge_failure_is_marked:
  assumes "client log ''gpt-4.1'' (merge_prompt events_list) = Inl e"
  shows "merge_events_to_timeline client events_list log
     = (Inr (''[GPT Error] '' @ exc_str e), log @ [(''gpt-4.1'', merge_prompt events_list)])"
  using assms by (simp add: merge_eq answer_def)

theorem merge_failure_is_marked_witness:
  "failing_client [] ''gpt-4.1'' (merge_prompt ''- [1 Jan] Fire broke out (source: P)'')
     = Inl (PyException ''APIConnectionError'' ''Connection error.'')
   \<and> merge_events_to_timeline failing_client ''- [1 Jan] Fire broke out (source: P)'' []
     = (Inr ''[GPT Error] Connection error.'',
        [(''gpt-4.1'', merge_prompt ''- [1 Jan] Fire broke out (source: P)'')])"
  using merge_failure_is_marked[of failing_client "[]" "''- [1 Jan] Fire broke out (source: P)''"
      "PyException ''APIConnectionError'' ''Connection error.''"]
  by (simp add: failing_client_def)




text \<open>
  When the Chrome driver cannot be built, the exception leaves \<open>resolve_real_url\<close>.
\<close>

theorem resolve_raises_counterexample:
  "resolve_real_url no_chrome_web ''https://news.google.com/rss/articles/x''
     = Inl (PyException ''WebDriverException'' ''cannot find Chrome binary'')"
  by (simp add: resolve_real_url_def no_chrome_web_def quiet_web_def)

text \<open>
  C7 (as amended).  When the driver starts and quits without raising,
  \<open>resolve_real_url\<close> returns the browser's current URL, or the input URL unchanged
  when navigation raised.
\<close>

theorem resolve_real_url_result:
  assumes "start_driver w google_url = None" and "driver_quit w google_url = None"
  shows "resolve_real_url w google_url
     = Inr (case driver_get w google_url of
              Inr current_url \<Rightarrow> current_url
            | Inl _ \<Rightarrow> google_url)"
  using assms by (simp add: resolve_real_url_def)

theorem resolve_real_url_result_witness:
  "start_driver timeout_web ''https://news.google.com/rss/articles/x'' = None
   \<and> driver_quit timeout_web ''https://news.google.com/rss/articles/x'' = None
   \<and> resolve_real_url timeout_web ''https://news.google.com/rss/articles/x''
       = Inr ''https://news.google.com/rss/articles/x''
   \<and> resolve_real_url quiet_web ''x'' = Inr ''https://publisher.example/x''"
  using resolve_real_url_result[of timeout_web "''https://news.google.com/rss/articles/x''"]
    resolve_real_url_result[of quiet_web "''x''"]
  by (simp add: timeout_web_def quiet_web_def)

text \<open>
  C8.  A search looks at the first ten feed entries at most.  As long as every URL
  resolution returns, the run completes whatever the text extractions give: the
  stored articles are those of the entries whose text was extracted, in feed order,
  and an entry without text is skipped.
\<close>

theorem fetch_skips_failed_extractions:
  assumes "strip query \<noteq> []"
    and "entries = take 10 (search_google_news w query)"
    and "\<forall>e\<in>set entries. \<exists>u. resolve_real_url w (link e) = Inr u"
  shows "length entries \<le> 10
       \<and> fetch_articles w entries [] = Inr (List.map_filter (article_of w) entries)
       \<and> length (List.map_filter (article_of w) entries) \<le> 10
       \<and> (\<exists>t log'. search_handler w client query st log
             = (Completed,
                \<lparr>timeline = Some t,
                  articles_data = Some (List.map_filter (article_of w) entries),
                  translated_timeline = Some [], highlights = Some [], comparison = Some []\<rparr>,
                log'))"
proof -
  from assms(2) have l: "length entries \<le> 10" by simp
  from fetch_articles_returns[OF assms(3)]
  have f: "fetch_articles w entries [] = Inr (List.map_filter (article_of w) entries)" .
  have m: "length (List.map_filter (article_of w) entries) \<le> 10"
    using length_map_filter_le[of "article_of w" entries] l by simp
  from f assms(2)
  have "fetch_articles w (take 10 (search_google_news w query)) []
          = Inr (List.map_filter (article_of w) entries)" by simp
  from search_handler_completed[OF assms(1) this, of client st log] l f m show ?thesis by simp
qed

theorem fetch_skips_failed_extractions_witness:
  "strip ''metro fire'' \<noteq> []
   \<and> take 10 (search_google_news three_entry_web ''metro fire'')
       = [feed_entry ''a'', feed_entry ''b'', feed_entry ''c'']
   \<and> resolve_real_url three_entry_web ''a'' = Inr ''https://publisher.example/a''
   \<and> resolve_real_url three_entry_web ''b'' = Inr ''https://publisher.example/b''
   \<and> resolve_real_url three_entry_web ''c'' = Inr ''https://publisher.example/c''
   \<and> extract_text three_entry_web ''https://publisher.example/b'' = None
   \<and> fetch_articles three_entry_web [feed_entry ''a'', feed_entry ''b'', feed_entry ''c''] []
       = Inr [\<lparr>title = ''T a'', publisher = ''P'', published = ''Mon, 01 Jan 2024'',
                url = ''https://publisher.example/a'', content = ''Fire broke out. Two hurt.''\<rparr>,
              \<lparr>title = ''T c'', publisher = ''P'', published = ''Mon, 01 Jan 2024'',
                url = ''https://publisher.example/c'', content = ''Fire broke out. Two hurt.''\<rparr>]"
  using fetch_skips_failed_extractions[of "''metro fire''"
      "[feed_entry ''a'', feed_entry ''b'', feed_entry ''c'']" three_entry_web canned_client
      empty_session "[]"]
  by (simp add: search_google_news_def three_entry_web_def quiet_web_def feed_entry_def
      resolve_real_url_def extract_text_def strip_def is_space_def)

text \<open>
  C9.  Any sequence of translate, highlights and compare runs leaves the stored
  timeline and the stored articles as they were, and each such run changes no derived
  artifact other than its own.
\<close>

theorem derived_operations_frame:
  assumes "\<forall>i\<in>set is. derived i"
  shows "timeline (fst (interact w client is st log)) = timeline st
       \<and> articles_data (fst (interact w client is st log)) = articles_data st
       \<and> (\<forall>i\<in>set is. \<forall>s l out s' l'.
             script w client (typed_query i) (typed_lang i) (pressed i) s l = (out, s', l') \<longrightarrow>
               timeline s' = timeline s \<and> articles_data s' = articles_data s
             \<and> (pressed i \<noteq> Translate_click \<longrightarrow> translated_timeline s' = translated_timeline s)
             \<and> (pressed i \<noteq> Highlights_click \<longrightarrow> highlights s' = highlights s)
             \<and> (pressed i \<noteq> Compare_click \<longrightarrow> comparison s' = comparison s))"
proof -
  have "\<forall>i\<in>set is. pressed i \<noteq> Search_click" using assms by (auto simp: derived_def)
  then show ?thesis using interact_frame[OF assms] script_frame by blast
qed

theorem derived_operations_frame_witness:
  "derived \<lparr>typed_query = [], typed_lang = ''Tamil'', pressed = Translate_click\<rparr>
   \<and> derived \<lparr>typed_query = [], typed_lang = [], pressed = Highlights_click\<rparr>
   \<and> derived \<lparr>typed_query = [], typed_lang = [], pressed = Compare_click\<rparr>
   \<and> fst (interact quiet_web canned_client
            [\<lparr>typed_query = [], typed_lang = ''Tamil'', pressed = Translate_click\<rparr>,
             \<lparr>typed_query = [], typed_lang = ''Tamil'', pressed = Translate_click\<rparr>,
             \<lparr>typed_query = [], typed_lang = [], pressed = Highlights_click\<rparr>,
             \<lparr>typed_query = [], typed_lang = [], pressed = Compare_click\<rparr>]
            sample_session [])
       = sample_session
           \<lparr>translated_timeline := Some ''- [1 Jan] Fire broke out (source: P)'',
            highlights := Some ''- [1 Jan] Fire broke out (source: P)'',
            comparison := Some ''- [1 Jan] Fire broke out (source: P)''\<rparr>
   \<and> timeline (sample_session
           \<lparr>translated_timeline := Some ''- [1 Jan] Fire broke out (source: P)'',
            highlights := Some ''- [1 Jan] Fire broke out (source: P)'',
            comparison := Some ''- [1 Jan] Fire broke out (source: P)''\<rparr>)
       = timeline sample_session"
proof -
  let ?is = "[\<lparr>typed_query = [], typed_lang = ''Tamil'', pressed = Translate_click\<rparr>,
              \<lparr>typed_query = [], typed_lang = ''Tamil'', pressed = Translate_click\<rparr>,
              \<lparr>typed_query = [], typed_lang = [], pressed = Highlights_click\<rparr>,
              \<lparr>typed_query = [], typed_lang = [], pressed = Compare_click\<rparr>]"
  have d: "\<forall>i\<in>set ?is. derived i" by (simp add: derived_def)
  have r: "fst (interact quiet_web canned_client ?is sample_session [])
       = sample_session
           \<lparr>translated_timeline := Some ''- [1 Jan] Fire broke out (source: P)'',
            highlights := Some ''- [1 Jan] Fire broke out (source: P)'',
            comparison := Some ''- [1 Jan] Fire broke out (source: P)''\<rparr>"
    by (simp add: script_def sample_session_def translate_handler_def
        highlights_handler_def compare_handler_def translate_timeline_def
        extract_key_highlights_def compare_sources_def ask_gpt_eq canned_client_def answer_def)
  from derived_operations_frame[OF d, of quiet_web canned_client sample_session "[]"]
  have "timeline (fst (interact quiet_web canned_client ?is sample_session []))
          = timeline sample_session" by (rule conjunct1)
  with r d show ?thesis by (simp add: derived_def)
qed

end
